theory Spec2Isabelle
  imports Complex_Main "HOL-Library.AList"
begin

section \<open>JavaScript numbers\<close>

text \<open>
  A JavaScript \<open>number\<close> is NaN, one of the two infinities, or a finite value. A finite
  value is modelled by the real number it denotes. Rounding to 53 bits of mantissa is not
  modelled; the range of a double is: a result of magnitude \<open>2 ^ 1024\<close> or more lies
  beyond the largest double and becomes an infinity (\<open>dbl\<close>). Signed zeros are not
  distinguished.
\<close>

datatype jsnum = NaN | PInf | NInf | Fin real

definition dbl :: "real \<Rightarrow> jsnum" where
  "dbl r = (if 2 ^ 1024 \<le> r then PInf else if r \<le> - (2 ^ 1024) then NInf else Fin r)"

text \<open>\<open>Number.isFinite\<close> and \<open>Number.isInteger\<close>.\<close>

fun isFinite :: "jsnum \<Rightarrow> bool" where
  "isFinite (Fin r) = True"
| "isFinite _ = False"


text \<open>The comparisons \<open><\<close>, \<open><=\<close>, \<open>>\<close>, \<open>>=\<close>: every comparison with NaN is false.\<close>

fun js_lt :: "jsnum \<Rightarrow> jsnum \<Rightarrow> bool" where
  "js_lt (Fin x) (Fin y) = (x < y)"
| "js_lt NaN _ = False"
| "js_lt _ NaN = False"
| "js_lt PInf _ = False"
| "js_lt _ NInf = False"
| "js_lt NInf _ = True"
| "js_lt (Fin x) PInf = True"

definition js_le :: "jsnum \<Rightarrow> jsnum \<Rightarrow> bool" where
  "js_le a b = (js_lt a b \<or> (a = b \<and> a \<noteq> NaN))"

definition js_gt :: "jsnum \<Rightarrow> jsnum \<Rightarrow> bool" where
  "js_gt a b = js_lt b a"

definition js_ge :: "jsnum \<Rightarrow> jsnum \<Rightarrow> bool" where
  "js_ge a b = js_le b a"


text \<open>Arithmetic: unary minus, \<open>Math.abs\<close>, \<open>+\<close>, \<open>-\<close>, \<open>*\<close>, \<open>/\<close>.\<close>

fun js_neg :: "jsnum \<Rightarrow> jsnum" where
  "js_neg NaN = NaN"
| "js_neg PInf = NInf"
| "js_neg NInf = PInf"
| "js_neg (Fin r) = Fin (- r)"

fun Math_abs :: "jsnum \<Rightarrow> jsnum" where
  "Math_abs NaN = NaN"
| "Math_abs PInf = PInf"
| "Math_abs NInf = PInf"
| "Math_abs (Fin r) = Fin \<bar>r\<bar>"



fun js_mul :: "jsnum \<Rightarrow> jsnum \<Rightarrow> jsnum" where
  "js_mul (Fin x) (Fin y) = dbl (x * y)"
| "js_mul NaN _ = NaN"
| "js_mul _ NaN = NaN"
| "js_mul (Fin x) i = (if x = 0 then NaN else if 0 < x then i else js_neg i)"
| "js_mul i (Fin y) = (if y = 0 then NaN else if 0 < y then i else js_neg i)"
| "js_mul PInf i = i"
| "js_mul NInf i = js_neg i"



fun Math_log10 :: "jsnum \<Rightarrow> jsnum" where
  "Math_log10 (Fin r) = (if r < 0 then NaN else if r = 0 then NInf else dbl (log 10 r))"
| "Math_log10 PInf = PInf"
| "Math_log10 _ = NaN"


fun Math_ceil :: "jsnum \<Rightarrow> jsnum" where
  "Math_ceil (Fin r) = Fin (of_int \<lceil>r\<rceil>)"
| "Math_ceil x = x"

fun Math_pow10 :: "jsnum \<Rightarrow> jsnum" where
  "Math_pow10 (Fin y) = dbl (10 powr y)"
| "Math_pow10 PInf = PInf"
| "Math_pow10 NInf = Fin 0"
| "Math_pow10 NaN = NaN"

section \<open>Numbers as strings\<close>

text \<open>
  \<open>sig_digit r\<close> is the first digit that \<open>Number.prototype.toString\<close> writes for a
  positive finite \<open>r\<close> in a notation that starts with a significant digit: scale \<open>r\<close>
  by ten into \<open>[1, 10)\<close> and take the integer part.
\<close>

function sig_digit :: "real \<Rightarrow> nat" where
  "sig_digit r =
     (if r \<le> 0 then 0
      else if 10 \<le> r then sig_digit (r / 10)
      else if r < 1 then sig_digit (r * 10)
      else nat \<lfloor>r\<rfloor>)"
  by pat_completeness auto
termination
proof (relation "measure (\<lambda>r. nat \<bar>\<lfloor>log 10 r\<rfloor>\<bar>)")
  show "wf (measure (\<lambda>r. nat \<bar>\<lfloor>log 10 r\<rfloor>\<bar>))" by simp
next
  fix r :: real
  assume "\<not> r \<le> 0" and r: "10 \<le> r"
  have e: "log 10 (r / 10) = log 10 r - 1"
    using r by (simp add: log_divide)
  have "1 \<le> log 10 r"
    using r by (simp add: le_log_iff)
  then have "1 \<le> \<lfloor>log 10 r\<rfloor>" by (simp add: le_floor_iff)
  moreover have "\<lfloor>log 10 (r / 10)\<rfloor> = \<lfloor>log 10 r\<rfloor> - 1"
    unfolding e by simp
  ultimately have "nat \<bar>\<lfloor>log 10 (r / 10)\<rfloor>\<bar> < nat \<bar>\<lfloor>log 10 r\<rfloor>\<bar>"
    by linarith
  then show "(r / 10, r) \<in> measure (\<lambda>r. nat \<bar>\<lfloor>log 10 r\<rfloor>\<bar>)"
    by (simp only: in_measure)
next
  fix r :: real
  assume p: "\<not> r \<le> 0" and "\<not> 10 \<le> r" and r: "r < 1"
  have e: "log 10 (r * 10) = log 10 r + 1"
    using p by (simp add: log_mult)
  have "log 10 r < 0"
    using p r by simp
  then have "\<lfloor>log 10 r\<rfloor> < 0" by (simp add: floor_less_iff)
  moreover have "\<lfloor>log 10 (r * 10)\<rfloor> = \<lfloor>log 10 r\<rfloor> + 1"
    unfolding e by simp
  ultimately have "nat \<bar>\<lfloor>log 10 (r * 10)\<rfloor>\<bar> < nat \<bar>\<lfloor>log 10 r\<rfloor>\<bar>"
    by linarith
  then show "(r * 10, r) \<in> measure (\<lambda>r. nat \<bar>\<lfloor>log 10 r\<rfloor>\<bar>)"
    by (simp only: in_measure)
qed

declare sig_digit.simps [simp del]

definition digit_char :: "nat \<Rightarrow> char" where
  "digit_char d = ''0123456789'' ! d"

text \<open>
  \<open>x.toString()[0]\<close>: the first character of the string of a number. A finite value from
  \<open>10\<^sup>-\<^sup>6\<close> up to 1 is written \<open>0.ddd\<close>; every other positive value (decimal notation
  from 1 up to \<open>10\<^sup>2\<^sup>1\<close>, exponent notation elsewhere) starts with its first
  significant digit.
\<close>

fun toString_head :: "jsnum \<Rightarrow> char" where
  "toString_head NaN = CHR ''N''"
| "toString_head PInf = CHR ''I''"
| "toString_head NInf = CHR ''-''"
| "toString_head (Fin r) =
     (if r < 0 then CHR ''-''
      else if r = 0 then CHR ''0''
      else if 1 / 10 ^ 6 \<le> r \<and> r < 1 then CHR ''0''
      else digit_char (sig_digit r))"

text \<open>\<open>parseInt(c, 10)\<close> for a string \<open>c\<close> of one character: its digit, or NaN.\<close>

definition parseInt_char :: "char \<Rightarrow> jsnum" where
  "parseInt_char c =
     (let n = (of_char c :: nat)
      in if of_char (CHR ''0'') \<le> n \<and> n \<le> of_char (CHR ''9'')
         then Fin (real (n - of_char (CHR ''0''))) else NaN)"




section \<open>Errors\<close>

text \<open>
  Every \<open>throw new Error(message)\<close> of the source is one constructor:
  \<^item> \<open>NotFinite\<close>: \<open>Number must be finite\<close>;
  \<^item> \<open>NonPositive\<close>: \<open>Number must be positive and non-zero\<close>;
  \<^item> \<open>InvalidDigit\<close>: \<open>Invalid first digit extracted\<close>;
  \<^item> \<open>InvalidLength\<close>: \<open>Length must be a positive integer\<close>;
  \<^item> \<open>EmptyInput\<close>: \<open>Numbers array must be non-empty\<close>;
  \<^item> \<open>InvalidThreshold\<close>: \<open>Threshold must be between 0 and 1\<close>.
\<close>

datatype error =
  NotFinite | NonPositive | InvalidDigit | InvalidLength | EmptyInput | InvalidThreshold

section \<open>getFirstDigit\<close>

text \<open>The value of the local constant \<open>normalized\<close>, from \<open>absNumber\<close>.\<close>

definition normalized :: "jsnum \<Rightarrow> jsnum" where
  "normalized absNumber =
     (if js_ge absNumber (Fin 1) then absNumber
      else js_mul absNumber (Math_pow10 (Math_ceil (js_neg (Math_log10 absNumber)))))"

definition getFirstDigit :: "jsnum \<Rightarrow> error + jsnum" where
  "getFirstDigit number =
     (if \<not> isFinite number then Inl NotFinite
      else if js_le number (Fin 0) then Inl NonPositive
      else
        let absNumber = Math_abs number;
            firstDigit = parseInt_char (toString_head (normalized absNumber))
        in if js_lt firstDigit (Fin 1) \<or> js_gt firstDigit (Fin 9) then Inl InvalidDigit
           else Inr firstDigit)"

section \<open>Generating numbers\<close>









section \<open>Analysing a dataset\<close>













section \<open>Predicates of the specification\<close>

text \<open>A valid element of a dataset: a finite, positive number.\<close>

definition valid_number :: "jsnum \<Rightarrow> bool" where
  "valid_number x = (isFinite x \<and> js_gt x (Fin 0))"



section \<open>The range of a double\<close>

lemma dbl_Fin: "\<bar>r\<bar> < 2 ^ 1024 \<Longrightarrow> dbl r = Fin r"
  by (auto simp: dbl_def)

lemma dbl_pos_cases: "0 < r \<Longrightarrow> dbl r = PInf \<or> dbl r = Fin r"
  by (auto simp: dbl_def)

lemma dbl_neg_cases: "r < 0 \<Longrightarrow> dbl r = NInf \<or> dbl r = Fin r"
  by (auto simp: dbl_def)

section \<open>The leading digit\<close>

lemma sig_digit_unit: "1 \<le> r \<Longrightarrow> r < 10 \<Longrightarrow> sig_digit r = nat \<lfloor>r\<rfloor>"
  by (subst sig_digit.simps) simp

lemma sig_digit_scaled:
  "10 ^ n \<le> r \<Longrightarrow> r < 10 ^ Suc n \<Longrightarrow> sig_digit r = nat \<lfloor>r / 10 ^ n\<rfloor>"
proof (induction n arbitrary: r)
  case 0
  then show ?case by (simp add: sig_digit_unit)
next
  case (Suc n)
  have ten: "(10::real) \<le> 10 ^ Suc n" by (simp add: self_le_power)
  then have r10: "10 \<le> r" using Suc.prems(1) by linarith
  have a: "10 ^ n \<le> r / 10" using Suc.prems(1) by simp
  have b: "r / 10 < 10 ^ Suc n" using Suc.prems(2) by simp
  have "sig_digit r = sig_digit (r / 10)"
    using r10 by (subst sig_digit.simps) simp
  also have "\<dots> = nat \<lfloor>r / 10 / 10 ^ n\<rfloor>" by (rule Suc.IH [OF a b])
  finally show ?case by (simp add: field_simps)
qed

lemma floor_unit_range: "1 \<le> (r::real) \<Longrightarrow> r < 10 \<Longrightarrow> 1 \<le> nat \<lfloor>r\<rfloor> \<and> nat \<lfloor>r\<rfloor> \<le> 9"
proof -
  assume a: "1 \<le> r" "r < 10"
  then have "1 \<le> \<lfloor>r\<rfloor>" "\<lfloor>r\<rfloor> < 10" by (simp_all add: le_floor_iff floor_less_iff)
  then show ?thesis by linarith
qed

lemma decade:
  assumes "1 \<le> (r::real)"
  shows "10 ^ nat \<lfloor>log 10 r\<rfloor> \<le> r \<and> r < 10 ^ Suc (nat \<lfloor>log 10 r\<rfloor>)"
proof -
  have pos: "0 < r" using assms by linarith
  have "0 \<le> log 10 r" using assms by simp
  then have k: "0 \<le> \<lfloor>log 10 r\<rfloor>" by simp
  have "10 powr real_of_int \<lfloor>log 10 r\<rfloor> \<le> r \<and> r < 10 powr real_of_int (\<lfloor>log 10 r\<rfloor> + 1)"
    using floor_log_eq_powr_iff [of r 10 "\<lfloor>log 10 r\<rfloor>"] pos by simp
  moreover have "10 powr real_of_int \<lfloor>log 10 r\<rfloor> = (10::real) ^ nat \<lfloor>log 10 r\<rfloor>"
    using k by (simp add: powr_real_of_int)
  moreover have "10 powr real_of_int (\<lfloor>log 10 r\<rfloor> + 1) = (10::real) ^ Suc (nat \<lfloor>log 10 r\<rfloor>)"
    using k by (simp add: powr_add powr_real_of_int)
  ultimately show ?thesis by simp
qed

lemma sig_digit_log_floor:
  assumes "1 \<le> r"
  shows "sig_digit r = nat \<lfloor>r / 10 powr real_of_int \<lfloor>log 10 r\<rfloor>\<rfloor>"
    and "1 \<le> sig_digit r" and "sig_digit r \<le> 9"
proof -
  let ?n = "nat \<lfloor>log 10 r\<rfloor>"
  have d: "10 ^ ?n \<le> r" "r < 10 ^ Suc ?n" using decade [OF assms] by simp_all
  have "0 \<le> log 10 r" using assms by simp
  then have k: "0 \<le> \<lfloor>log 10 r\<rfloor>" by simp
  have p: "10 powr real_of_int \<lfloor>log 10 r\<rfloor> = (10::real) ^ ?n"
    using k by (simp add: powr_real_of_int)
  have s: "sig_digit r = nat \<lfloor>r / 10 ^ ?n\<rfloor>" by (rule sig_digit_scaled [OF d])
  show "sig_digit r = nat \<lfloor>r / 10 powr real_of_int \<lfloor>log 10 r\<rfloor>\<rfloor>"
    unfolding p by (rule s)
  have "1 \<le> r / 10 ^ ?n" using d(1) by (simp add: field_simps)
  moreover have "r / 10 ^ ?n < 10" using d(2) by (simp add: field_simps)
  ultimately have "1 \<le> nat \<lfloor>r / 10 ^ ?n\<rfloor> \<and> nat \<lfloor>r / 10 ^ ?n\<rfloor> \<le> 9"
    by (rule floor_unit_range)
  then show "1 \<le> sig_digit r" and "sig_digit r \<le> 9" using s by simp_all
qed

lemma parseInt_digit_char: "d \<le> 9 \<Longrightarrow> parseInt_char (digit_char d) = Fin (real d)"
proof -
  assume "d \<le> 9"
  then have "d \<in> {0,1,2,3,4,5,6,7,8,9}" by auto
  then show ?thesis
    by (auto simp: parseInt_char_def digit_char_def)
qed

lemma scale_up:
  assumes "0 < a" "a < 1"
  shows "1 \<le> a * 10 powr real_of_int \<lceil>- log 10 a\<rceil>" 
    and "a * 10 powr real_of_int \<lceil>- log 10 a\<rceil> < 10"
proof -
  let ?k = "\<lceil>- log 10 a\<rceil>"
  have u: "- log 10 a \<le> real_of_int ?k" by (rule le_of_int_ceiling)
  have l: "real_of_int ?k < - log 10 a + 1" by linarith
  have a: "a = 10 powr log 10 a" using assms by simp
  have "a * 10 powr real_of_int ?k = 10 powr (log 10 a + real_of_int ?k)"
    by (subst a) (simp add: powr_add)
  moreover have "0 \<le> log 10 a + real_of_int ?k" using u by linarith
  then have "1 \<le> 10 powr (log 10 a + real_of_int ?k)"
    by (intro ge_one_powr_ge_zero) simp_all
  moreover have "10 powr (log 10 a + real_of_int ?k) < 10 powr 1"
    using l by (intro powr_less_mono) simp_all
  ultimately show "1 \<le> a * 10 powr real_of_int ?k" "a * 10 powr real_of_int ?k < 10"
    by simp_all
qed


lemma fresh_digit: "1 \<le> n \<Longrightarrow> n \<le> 9 \<Longrightarrow> \<not> (js_lt (Fin (real n)) (Fin 1) \<or> js_gt (Fin (real n)) (Fin 9))"
  by (simp add: js_gt_def)

lemma head_ge1: "1 \<le> r \<Longrightarrow> parseInt_char (toString_head (Fin r)) = Fin (real (sig_digit r))"
  using sig_digit_log_floor(3) [of r] by (simp add: parseInt_digit_char)

lemma getFirstDigit_pos:
  "0 < a \<Longrightarrow> getFirstDigit (Fin a) =
     (if js_lt (parseInt_char (toString_head (normalized (Fin a)))) (Fin 1) \<or>
         js_gt (parseInt_char (toString_head (normalized (Fin a)))) (Fin 9)
      then Inl InvalidDigit
      else Inr (parseInt_char (toString_head (normalized (Fin a)))))"
  by (simp add: getFirstDigit_def js_le_def Let_def)

lemma getFirstDigit_digit:
  assumes "0 < a" and "parseInt_char (toString_head (normalized (Fin a))) = Fin (real n)"
    and "1 \<le> n" and "n \<le> 9"
  shows "getFirstDigit (Fin a) = Inr (Fin (real n))"
  using fresh_digit [OF assms(3,4)]
  by (simp only: getFirstDigit_pos [OF assms(1)] assms(2) if_False)

lemma getFirstDigit_ge1:
  assumes "1 \<le> a"
  shows "getFirstDigit (Fin a) = Inr (Fin (real (sig_digit a)))"
proof -
  have n: "normalized (Fin a) = Fin a"
    using assms by (simp add: normalized_def js_ge_def js_le_def)
  have a: "0 < a" using assms by linarith
  show ?thesis
    using a _ sig_digit_log_floor(2,3) [OF assms]
    by (rule getFirstDigit_digit) (simp only: n head_ge1 [OF assms])
qed

lemma normalized_lt1:
  assumes "0 < a" "a < 1" "\<bar>log 10 a\<bar> < 2 ^ 1024"
  shows "normalized (Fin a) = js_mul (Fin a) (dbl (10 powr real_of_int \<lceil>- log 10 a\<rceil>))"
proof -
  have ge: "\<not> js_ge (Fin a) (Fin 1)" using assms by (simp add: js_ge_def js_le_def)
  have "Math_log10 (Fin a) = Fin (log 10 a)"
    using assms(1) dbl_Fin [OF assms(3)] by simp
  then show ?thesis
    using ge by (simp add: normalized_def)
qed

lemma normalized_lt1_cases:
  assumes "0 < a" "a < 1"
  shows "normalized (Fin a) = PInf \<or>
         normalized (Fin a) = Fin (a * 10 powr real_of_int \<lceil>- log 10 a\<rceil>)"
proof -
  let ?k = "\<lceil>- log 10 a\<rceil>"
  have neg: "log 10 a < 0" using assms by simp
  have ge: "\<not> js_ge (Fin a) (Fin 1)" using assms by (simp add: js_ge_def js_le_def)
  have n: "normalized (Fin a) = js_mul (Fin a) (Math_pow10 (Math_ceil (js_neg (dbl (log 10 a)))))"
    using assms ge by (simp add: normalized_def)
  from dbl_neg_cases [OF neg] show ?thesis
  proof
    assume "dbl (log 10 a) = NInf"
    then show ?thesis using assms by (simp add: n)
  next
    assume l: "dbl (log 10 a) = Fin (log 10 a)"
    have p: "0 < (10::real) powr real_of_int ?k" by simp
    from dbl_pos_cases [OF p] show ?thesis
    proof
      assume "dbl (10 powr real_of_int ?k) = PInf"
      then show ?thesis using assms by (simp add: n l)
    next
      assume q: "dbl (10 powr real_of_int ?k) = Fin (10 powr real_of_int ?k)"
      have "\<bar>a * 10 powr real_of_int ?k\<bar> < 2 ^ 1024"
        using scale_up [OF assms] by simp
      then have "dbl (a * 10 powr real_of_int ?k) = Fin (a * 10 powr real_of_int ?k)"
        by (rule dbl_Fin)
      then show ?thesis by (simp add: n l q)
    qed
  qed
qed

lemma getFirstDigit_overflow:
  assumes "0 < a" and "normalized (Fin a) = PInf"
  shows "getFirstDigit (Fin a) = Inr NaN"
  by (simp add: getFirstDigit_pos [OF assms(1)] assms(2) parseInt_char_def js_gt_def)

lemma getFirstDigit_scaled:
  assumes "0 < a" "a < 1"
    and "normalized (Fin a) = Fin (a * 10 powr real_of_int \<lceil>- log 10 a\<rceil>)"
  shows "getFirstDigit (Fin a) = Inr (Fin (real (nat \<lfloor>a * 10 powr real_of_int \<lceil>- log 10 a\<rceil>\<rfloor>)))"
proof -
  let ?b = "a * 10 powr real_of_int \<lceil>- log 10 a\<rceil>"
  have b: "1 \<le> ?b" "?b < 10" using scale_up [OF assms(1,2)] by simp_all
  have s: "sig_digit ?b = nat \<lfloor>?b\<rfloor>" using b by (rule sig_digit_unit)
  have r: "1 \<le> nat \<lfloor>?b\<rfloor>" "nat \<lfloor>?b\<rfloor> \<le> 9" using floor_unit_range [OF b] by simp_all
  show ?thesis
    using assms(1) _ r
    by (rule getFirstDigit_digit) (simp only: assms(3) head_ge1 [OF b(1)] s)
qed

lemma getFirstDigit_lt1:
  assumes "0 < a" "a < 1"
  shows "getFirstDigit (Fin a) = Inr NaN \<or>
         getFirstDigit (Fin a) = Inr (Fin (real (nat \<lfloor>a * 10 powr real_of_int \<lceil>- log 10 a\<rceil>\<rfloor>)))"
  using normalized_lt1_cases [OF assms] getFirstDigit_overflow [OF assms(1)]
    getFirstDigit_scaled [OF assms] by blast

lemma valid_number_Fin: "valid_number x \<Longrightarrow> \<exists>a. x = Fin a \<and> 0 < a"
  by (cases x) (simp_all add: valid_number_def js_gt_def)

lemma getFirstDigit_valid:
  assumes "valid_number x"
  shows "\<exists>d. getFirstDigit x = Inr d \<and> (d = NaN \<or> (\<exists>n. 1 \<le> n \<and> n \<le> 9 \<and> d = Fin (real n)))"
proof -
  obtain a where x: "x = Fin a" and a: "0 < a" using valid_number_Fin [OF assms] by blast
  show ?thesis
  proof (cases "1 \<le> a")
    case True
    show ?thesis
      unfolding x using getFirstDigit_ge1 [OF True] sig_digit_log_floor(2,3) [OF True] by blast
  next
    case False
    then have l: "a < 1" by simp
    have "1 \<le> nat \<lfloor>a * 10 powr real_of_int \<lceil>- log 10 a\<rceil>\<rfloor> \<and> nat \<lfloor>a * 10 powr real_of_int \<lceil>- log 10 a\<rceil>\<rfloor> \<le> 9"
      using scale_up [OF a l] by (intro floor_unit_range)
    then show ?thesis
      unfolding x using getFirstDigit_lt1 [OF a l] by blast
  qed
qed

lemma getFirstDigit_tiny:
  assumes "0 < a" "a < 1" "\<bar>log 10 a\<bar> < 2 ^ 1024"
    and "2 ^ 1024 \<le> (10::real) powr real_of_int \<lceil>- log 10 a\<rceil>"
  shows "getFirstDigit (Fin a) = Inr NaN"
proof -
  have "dbl (10 powr real_of_int \<lceil>- log 10 a\<rceil>) = PInf"
    using assms(4) by (simp add: dbl_def)
  then have "normalized (Fin a) = PInf"
    using assms(1) by (simp add: normalized_lt1 [OF assms(1,2,3)])
  then show ?thesis by (rule getFirstDigit_overflow [OF assms(1)])
qed

lemma min_value_exponent: "\<lceil>- log 10 (1 / 2 ^ 1074 :: real)\<rceil> = 324"
proof -
  have e: "- log 10 (1 / 2 ^ 1074 :: real) = log 10 (2 ^ 1074)"
    by (simp add: log_divide)
  have "(10::real) powr 323 < 2 ^ 1074" by simp
  then have lo: "323 < log 10 (2 ^ 1074 :: real)" by (simp add: less_log_iff)
  have "(2::real) ^ 1074 \<le> 10 powr 324" by simp
  then have hi: "log 10 (2 ^ 1074 :: real) \<le> 324" by (simp add: log_le_iff)
  show ?thesis unfolding e using lo hi by (intro ceiling_unique) simp_all
qed

text \<open>
  Within the range of a double (no power of ten overflows: \<open>x \<ge> 10\<^sup>-\<^sup>3\<^sup>0\<^sup>8\<close>) the first
  character of \<open>normalized\<close> is the digit of the logarithm-and-floor computation, a digit
  from 1 to 9.
\<close>

lemma floor_log_unit: "1 \<le> (b::real) \<Longrightarrow> b < 10 \<Longrightarrow> \<lfloor>log 10 b\<rfloor> = 0"
proof -
  assume b: "1 \<le> b" "b < 10"
  have "0 \<le> log 10 b" using b by simp
  moreover have "log 10 b < 1" using b by (simp add: log_less_iff)
  ultimately show ?thesis by (simp add: floor_eq_iff)
qed

lemma normalized_in_range:
  assumes "1 / 10 ^ 308 \<le> x" "x < 1"
  shows "normalized (Fin x) = Fin (x * 10 powr real_of_int \<lceil>- log 10 x\<rceil>)"
proof -
  let ?k = "\<lceil>- log 10 x\<rceil>"
  have pos: "0 < x" using assms(1) by (smt (verit) divide_pos_pos zero_less_power)
  have "(10::real) powr (- 308) \<le> x"
    using assms(1) by (simp add: powr_minus_divide)
  then have lo: "- 308 \<le> log 10 x" using pos by (simp add: le_log_iff)
  have hi: "log 10 x < 0" using pos assms(2) by simp
  have big: "(308::real) < 2 ^ 1024" by simp
  have l: "\<bar>log 10 x\<bar> < 2 ^ 1024" using lo hi big by linarith
  have "?k \<le> 308" using lo by (simp add: ceiling_le_iff)
  then have "real_of_int ?k \<le> 308" by linarith
  then have "(10::real) powr real_of_int ?k \<le> 10 powr 308"
    by (intro powr_mono) simp_all
  moreover have "(10::real) powr 308 < 2 ^ 1024" by simp
  moreover have "0 < (10::real) powr real_of_int ?k" by simp
  ultimately have "\<bar>(10::real) powr real_of_int ?k\<bar> < 2 ^ 1024" by linarith
  then have p: "dbl (10 powr real_of_int ?k) = Fin (10 powr real_of_int ?k)" by (rule dbl_Fin)
  have "\<bar>x * 10 powr real_of_int ?k\<bar> < 2 ^ 1024"
    using scale_up [OF pos assms(2)] by simp
  then have m: "dbl (x * 10 powr real_of_int ?k) = Fin (x * 10 powr real_of_int ?k)"
    by (rule dbl_Fin)
  show ?thesis
    by (simp only: normalized_lt1 [OF pos assms(2) l] p js_mul.simps m)
qed

lemma getFirstDigit_log_floor:
  assumes "1 / 10 ^ 308 \<le> x"
  shows "1 \<le> x \<longrightarrow>
      getFirstDigit (Fin x) = Inr (Fin (real (nat \<lfloor>x / 10 powr real_of_int \<lfloor>log 10 x\<rfloor>\<rfloor>)))"
    and "x < 1 \<longrightarrow>
      getFirstDigit (Fin x) =
        Inr (Fin (real (nat \<lfloor>x * 10 powr real_of_int \<lceil>- log 10 x\<rceil> /
          10 powr real_of_int \<lfloor>log 10 (x * 10 powr real_of_int \<lceil>- log 10 x\<rceil>)\<rfloor>\<rfloor>)))"
    and "\<exists>n. 1 \<le> n \<and> n \<le> 9 \<and> getFirstDigit (Fin x) = Inr (Fin (real n))"
proof -
  have pos: "0 < x" using assms(1) by (smt (verit) divide_pos_pos zero_less_power)
  show "1 \<le> x \<longrightarrow>
      getFirstDigit (Fin x) = Inr (Fin (real (nat \<lfloor>x / 10 powr real_of_int \<lfloor>log 10 x\<rfloor>\<rfloor>)))"
    using getFirstDigit_ge1 [of x] sig_digit_log_floor(1) [of x] by simp
  have s: "getFirstDigit (Fin x) =
      Inr (Fin (real (nat \<lfloor>x * 10 powr real_of_int \<lceil>- log 10 x\<rceil>\<rfloor>)))" if "x < 1"
    using pos that normalized_in_range [OF assms that] by (rule getFirstDigit_scaled)
  show "x < 1 \<longrightarrow>
      getFirstDigit (Fin x) =
        Inr (Fin (real (nat \<lfloor>x * 10 powr real_of_int \<lceil>- log 10 x\<rceil> /
          10 powr real_of_int \<lfloor>log 10 (x * 10 powr real_of_int \<lceil>- log 10 x\<rceil>)\<rfloor>\<rfloor>)))"
  proof
    assume l: "x < 1"
    have "\<lfloor>log 10 (x * 10 powr real_of_int \<lceil>- log 10 x\<rceil>)\<rfloor> = 0"
      using scale_up [OF pos l] by (rule floor_log_unit)
    then show "getFirstDigit (Fin x) =
        Inr (Fin (real (nat \<lfloor>x * 10 powr real_of_int \<lceil>- log 10 x\<rceil> /
          10 powr real_of_int \<lfloor>log 10 (x * 10 powr real_of_int \<lceil>- log 10 x\<rceil>)\<rfloor>\<rfloor>)))"
      using s [OF l] by simp
  qed
  show "\<exists>n. 1 \<le> n \<and> n \<le> 9 \<and> getFirstDigit (Fin x) = Inr (Fin (real n))"
  proof (cases "1 \<le> x")
    case True
    then show ?thesis
      using getFirstDigit_ge1 [OF True] sig_digit_log_floor(2,3) [OF True] by blast
  next
    case False
    then have l: "x < 1" by simp
    have "1 \<le> nat \<lfloor>x * 10 powr real_of_int \<lceil>- log 10 x\<rceil>\<rfloor> \<and>
        nat \<lfloor>x * 10 powr real_of_int \<lceil>- log 10 x\<rceil>\<rfloor> \<le> 9"
      using scale_up [OF pos l] by (rule floor_unit_range)
    then show ?thesis using s [OF l] by blast
  qed
qed

lemma getFirstDigit_examples:
  "getFirstDigit (Fin (1 / 2)) = Inr (Fin 5)"
  "getFirstDigit (Fin 1000) = Inr (Fin 1)"
  "getFirstDigit (Fin (3 / 2)) = Inr (Fin 1)"
proof -
  have c: "\<lceil>- log 10 (1 / 2 :: real)\<rceil> = 1"
  proof -
    have e: "- log 10 (1 / 2 :: real) = log 10 2" by (simp add: log_divide)
    have "0 < log 10 (2::real)" by simp
    moreover have "log 10 (2::real) \<le> 1" by (simp add: log_le_iff)
    ultimately show ?thesis unfolding e by (intro ceiling_unique) simp_all
  qed
  have "getFirstDigit (Fin (1 / 2)) =
      Inr (Fin (real (nat \<lfloor>(1 / 2) * 10 powr real_of_int \<lceil>- log 10 (1 / 2 :: real)\<rceil>\<rfloor>)))"
    by (rule getFirstDigit_scaled [OF _ _ normalized_in_range]) simp_all
  then show "getFirstDigit (Fin (1 / 2)) = Inr (Fin 5)"
    unfolding c by simp
  show "getFirstDigit (Fin 1000) = Inr (Fin 1)"
    by (simp add: getFirstDigit_ge1 sig_digit.simps)
  show "getFirstDigit (Fin (3 / 2)) = Inr (Fin 1)"
    by (simp add: getFirstDigit_ge1 sig_digit.simps)
qed

section \<open>Facts about the analysis\<close>

























section \<open>Facts about the generator\<close>







section \<open>The claims\<close>








text \<open>
  C4. The claim: for every finite \<open>x > 0\<close>, \<open>getFirstDigit\<close> returns an integer from 1 to 9,
  the leading digit the logarithm-and-floor computation gives, or fails with the invalid
  digit error. At the smallest positive double, \<open>2\<^sup>-\<^sup>1\<^sup>0\<^sup>7\<^sup>4\<close> (\<open>5e-324\<close>), the exponent
  \<open>Math.ceil(-Math.log10(x))\<close> is 324, \<open>Math.pow(10, 324)\<close> is \<open>Infinity\<close>, the string of
  \<open>normalized\<close> starts with \<open>I\<close>, \<open>parseInt\<close> gives NaN, both comparisons of the range check
  are false, and the function returns NaN: neither a digit nor an error.
\<close>

theorem getFirstDigit_min_value: "getFirstDigit (Fin (1 / 2 ^ 1074)) = Inr NaN"
proof (rule getFirstDigit_tiny)
  show "0 < (1 / 2 ^ 1074 :: real)" by simp
  show "(1 / 2 ^ 1074 :: real) < 1" by simp
  have "- log 10 (1 / 2 ^ 1074 :: real) \<le> 324"
    using min_value_exponent le_of_int_ceiling [of "- log 10 (1 / 2 ^ 1074 :: real)"]
    by (simp only: of_int_numeral)
  moreover have "log 10 (1 / 2 ^ 1074 :: real) < 0" by simp
  moreover have "(324::real) < 2 ^ 1024" by simp
  ultimately show "\<bar>log 10 (1 / 2 ^ 1074 :: real)\<bar> < 2 ^ 1024" by linarith
  show "2 ^ 1024 \<le> (10::real) powr real_of_int \<lceil>- log 10 (1 / 2 ^ 1074 :: real)\<rceil>"
    by (simp only: min_value_exponent) simp
qed





text \<open>
  C7. Finiteness is checked before sign: NaN and both infinities (the negative one too)
  fail with \<open>NotFinite\<close>; a finite \<open>r \<le> 0\<close> fails with \<open>NonPositive\<close>; and
  \<open>getFirstDigit\<close> fails with one of these two errors exactly when its argument is not
  finite or is at most 0.
\<close>

theorem getFirstDigit_rejects:
  "(getFirstDigit NaN = Inl NotFinite \<and> getFirstDigit PInf = Inl NotFinite \<and>
    getFirstDigit NInf = Inl NotFinite) \<and>
   (r \<le> 0 \<longrightarrow> getFirstDigit (Fin r) = Inl NonPositive) \<and>
   ((getFirstDigit x = Inl NotFinite \<or> getFirstDigit x = Inl NonPositive) =
    (\<not> isFinite x \<or> js_le x (Fin 0)))"
proof -
  have a: "getFirstDigit NaN = Inl NotFinite \<and> getFirstDigit PInf = Inl NotFinite \<and>
      getFirstDigit NInf = Inl NotFinite"
    by (simp add: getFirstDigit_def)
  have b: "r \<le> 0 \<longrightarrow> getFirstDigit (Fin r) = Inl NonPositive"
    by (simp add: getFirstDigit_def js_le_def)
  have c: "(getFirstDigit x = Inl NotFinite \<or> getFirstDigit x = Inl NonPositive) =
      (\<not> isFinite x \<or> js_le x (Fin 0))"
  proof (cases "valid_number x")
    case True
    then obtain d where "getFirstDigit x = Inr d" using getFirstDigit_valid by blast
    moreover have "isFinite x \<and> \<not> js_le x (Fin 0)"
      using valid_number_Fin [OF True] by (auto simp: js_le_def)
    ultimately show ?thesis by simp
  next
    case False
    then show ?thesis
      by (cases x) (auto simp: valid_number_def getFirstDigit_def js_le_def js_gt_def)
  qed
  from a b c show ?thesis by blast
qed

theorem getFirstDigit_rejects_witness:
  "getFirstDigit (Fin (- 1)) = Inl NonPositive \<and> getFirstDigit NInf = Inl NotFinite \<and>
   \<not> isFinite NInf \<and> js_le NInf (Fin 0)"
  using getFirstDigit_rejects [of "- 1" NInf] by (simp add: js_le_def)







end
